theory Spec2Isabelle
  imports Main
begin

section \<open>Python strings\<close>

text \<open>
  A Python \<open>str\<close> is modelled as a \<open>string\<close>: a list of characters, each character a
  code point below 256 (the Latin-1 range). The character classes below are Python's own
  for that range: \<open>str.isspace\<close> (which \<open>str.strip\<close> and the regular expression class
  \<open>\s\<close> share) holds of the code points 9 to 13, 28 to 32, 133 and 160.
\<close>

definition isspace :: "char \<Rightarrow> bool" where
  "isspace c =
     (let n = (of_char c :: nat)
      in (9 \<le> n \<and> n \<le> 13) \<or> (28 \<le> n \<and> n \<le> 32) \<or> n = 133 \<or> n = 160)"

definition newline :: char where
  "newline = CHR 0x0A"

definition backtick :: char where
  "backtick = CHR 0x60"

definition backslash :: char where
  "backslash = CHR 0x5C"

text \<open>\<open>s.strip()\<close>: whitespace removed at both ends.\<close>

definition strip :: "string \<Rightarrow> string" where
  "strip s = rev (dropWhile isspace (rev (dropWhile isspace s)))"

text \<open>\<open>s.startswith(p)\<close> and \<open>s.endswith(p)\<close>.\<close>

definition startswith :: "string \<Rightarrow> string \<Rightarrow> bool" where
  "startswith s p = (take (length p) s = p)"

definition endswith :: "string \<Rightarrow> string \<Rightarrow> bool" where
  "endswith s p = (length p \<le> length s \<and> drop (length s - length p) s = p)"

text \<open>\<open>s.find(sub)\<close>: the lowest index where \<open>sub\<close> starts, \<open>None\<close> for Python's -1.\<close>

primrec str_find :: "string \<Rightarrow> string \<Rightarrow> nat option" where
  "str_find [] sub = (if sub = [] then Some 0 else None)"
| "str_find (c # cs) sub =
     (if startswith (c # cs) sub then Some 0 else map_option Suc (str_find cs sub))"

text \<open>
  \<open>s.rfind(sub, start)\<close>: the highest index at or after \<open>start\<close> where \<open>sub\<close> starts.
  \<open>rfind_last\<close> searches a whole string; \<open>str_rfind\<close> searches \<open>s[start:]\<close> and shifts the
  index back.
\<close>

primrec rfind_last :: "string \<Rightarrow> string \<Rightarrow> nat option" where
  "rfind_last [] sub = (if sub = [] then Some 0 else None)"
| "rfind_last (c # cs) sub =
     (case rfind_last cs sub of
        Some i \<Rightarrow> Some (Suc i)
      | None \<Rightarrow> if startswith (c # cs) sub then Some 0 else None)"

definition str_rfind :: "string \<Rightarrow> string \<Rightarrow> nat \<Rightarrow> nat option" where
  "str_rfind s sub start =
     (if length s < start then None
      else map_option (\<lambda>i. start + i) (rfind_last (drop start s) sub))"

text \<open>The slice \<open>s[i:j]\<close> for \<open>0 \<le> i\<close> and \<open>0 \<le> j\<close>.\<close>

definition slice :: "string \<Rightarrow> nat \<Rightarrow> nat \<Rightarrow> string" where
  "slice s i j = take (j - i) (drop i s)"

text \<open>\<open>s.split('\n')\<close> and \<open>sep.join(items)\<close>.\<close>

primrec split_nl :: "string \<Rightarrow> string list" where
  "split_nl [] = [[]]"
| "split_nl (c # cs) =
     (if c = newline then [] # split_nl cs
      else (case split_nl cs of [] \<Rightarrow> [[c]] | l # ls \<Rightarrow> (c # l) # ls))"

fun str_join :: "string \<Rightarrow> string list \<Rightarrow> string" where
  "str_join sep [] = []"
| "str_join sep [l] = l"
| "str_join sep (l # ls) = l @ sep @ str_join sep ls"

section \<open>The Markup Normalizer of \<open>convert_md_to_pdf\<close>\<close>

definition fence :: string where
  "fence = [backtick, backtick, backtick]"

definition fence_markdown :: string where
  "fence_markdown = fence @ ''markdown''"

definition block_start_variants :: "string list" where
  "block_start_variants = [fence_markdown, fence]"

text \<open>
  The loop over \<open>block_start_variants\<close>: the first marker whose first occurrence is at
  index 0 or follows a whitespace character, with \<open>start_index\<close>, the index after it.
\<close>

fun find_start :: "string \<Rightarrow> string list \<Rightarrow> (string \<times> nat) option" where
  "find_start md_content [] = None"
| "find_start md_content (marker # markers) =
     (case str_find md_content marker of
        None \<Rightarrow> find_start md_content markers
      | Some idx \<Rightarrow>
          if idx = 0 \<or> isspace (md_content ! (idx - 1))
          then Some (marker, idx + length marker)
          else find_start md_content markers)"

text \<open>
  The fallback of both branches: drop the first line, and the last line when it is a bare
  fence.
\<close>

definition strip_fence_lines :: "string \<Rightarrow> string" where
  "strip_fence_lines stripped_md =
     (let lines = split_nl stripped_md;
          lines1 = (if lines \<noteq> [] then tl lines else lines);
          lines2 = (if lines1 \<noteq> [] \<and> strip (last lines1) = fence
                    then butlast lines1 else lines1)
      in str_join [newline] lines2)"

definition cleaned_md_content :: "string \<Rightarrow> string" where
  "cleaned_md_content md_content =
     (case find_start md_content block_start_variants of
        Some (actual_start_marker, start_index) \<Rightarrow>
          (case str_rfind md_content fence start_index of
             Some end_index \<Rightarrow> strip (slice md_content start_index end_index)
           | None \<Rightarrow>
               (let stripped_md = strip md_content
                in if startswith stripped_md actual_start_marker \<and> endswith stripped_md fence
                   then strip_fence_lines stripped_md
                   else md_content))
      | None \<Rightarrow>
          (let stripped_md = strip md_content
           in if startswith stripped_md fence \<and> endswith stripped_md fence
              then strip_fence_lines stripped_md
              else md_content))"

subsection \<open>The vocabulary of the specification\<close>

text \<open>
  An occurrence of \<open>sub\<close> in \<open>s\<close> at index \<open>i\<close>, the first occurrence, an opening marker
  (first occurrence at index 0 or after a whitespace character), the last fence at or
  after an index, and what it means for \<open>r\<close> to be \<open>s\<close> trimmed of whitespace at both
  ends.
\<close>

definition occurs_at :: "string \<Rightarrow> string \<Rightarrow> nat \<Rightarrow> bool" where
  "occurs_at s sub i = (i + length sub \<le> length s \<and> take (length sub) (drop i s) = sub)"

definition first_occurrence :: "string \<Rightarrow> string \<Rightarrow> nat \<Rightarrow> bool" where
  "first_occurrence s sub i = (occurs_at s sub i \<and> (\<forall>j<i. \<not> occurs_at s sub j))"

definition opens_block :: "string \<Rightarrow> string \<Rightarrow> nat \<Rightarrow> bool" where
  "opens_block md marker i =
     (first_occurrence md marker i \<and> (i = 0 \<or> isspace (md ! (i - 1))))"

definition last_fence_from :: "string \<Rightarrow> nat \<Rightarrow> nat \<Rightarrow> bool" where
  "last_fence_from md start e =
     (start \<le> e \<and> occurs_at md fence e \<and> (\<forall>j>e. \<not> occurs_at md fence j))"

definition trimmed_of :: "string \<Rightarrow> string \<Rightarrow> bool" where
  "trimmed_of s r =
     (\<exists>l t. s = l @ r @ t \<and> list_all isspace l \<and> list_all isspace t \<and>
        (r = [] \<or> (\<not> isspace (hd r) \<and> \<not> isspace (last r))))"

section \<open>Regular expression substitution\<close>

text \<open>
  \<open>re.sub(pattern, repl, s)\<close> for a pattern that matches no empty string. The scan goes
  left to right; at each position the matcher of the pattern is given the character
  before the position (for \<open>\b\<close>) and the rest of the text, and answers with the length
  of the match there and the text that replaces it. After a match the scan resumes behind
  it; where nothing matches, the character is copied. Each pattern of the converters has
  one way to match at a position (a greedy run followed by a character outside the run's
  class), so its matcher is a function. The first branch of the conditional is never taken
  by these matchers: every match is at least one character long and lies inside the text.
\<close>

type_synonym matcher = "char option \<Rightarrow> string \<Rightarrow> (nat \<times> string) option"

fun re_sub :: "matcher \<Rightarrow> char option \<Rightarrow> string \<Rightarrow> string" where
  "re_sub m prev [] = []"
| "re_sub m prev (c # cs) =
     (case m prev (c # cs) of
        None \<Rightarrow> c # re_sub m (Some c) cs
      | Some (n, repl) \<Rightarrow>
          if n = 0 \<or> length (c # cs) < n then c # re_sub m (Some c) cs
          else repl @ re_sub m (Some ((c # cs) ! (n - 1))) (drop n (c # cs)))"

text \<open>
  \<open>\w\<close> on code points below 256: letters, digits and other numeric characters
  (\<open>str.isalnum\<close>), and the underscore.
\<close>

definition is_word :: "char \<Rightarrow> bool" where
  "is_word c =
     (let n = (of_char c :: nat)
      in (48 \<le> n \<and> n \<le> 57) \<or> (65 \<le> n \<and> n \<le> 90) \<or> n = 95 \<or> (97 \<le> n \<and> n \<le> 122)
         \<or> n = 170 \<or> n = 178 \<or> n = 179 \<or> n = 181 \<or> n = 185 \<or> n = 186
         \<or> (188 \<le> n \<and> n \<le> 190) \<or> (192 \<le> n \<and> n \<le> 214) \<or> (216 \<le> n \<and> n \<le> 246)
         \<or> (248 \<le> n \<and> n \<le> 255))"

text \<open>\<open>#+\s+\<close>, replaced by the empty string.\<close>

definition match_header :: matcher where
  "match_header prev s =
     (let hashes = takeWhile (\<lambda>c. c = CHR ''#'') s;
          spaces = takeWhile isspace (dropWhile (\<lambda>c. c = CHR ''#'') s)
      in if hashes \<noteq> [] \<and> spaces \<noteq> [] then Some (length hashes + length spaces, [])
         else None)"

text \<open>
  \<open>\*\*|\*|__|\b_\b\<close>, replaced by the empty string. The underscore is a word character,
  so \<open>\b\<close> before it asks for no word character before it, and \<open>\b\<close> after it for none
  after it.
\<close>

definition match_emphasis :: matcher where
  "match_emphasis prev s =
     (case s of
        [] \<Rightarrow> None
      | c # cs \<Rightarrow>
          if c = CHR ''*'' then
            (if cs \<noteq> [] \<and> hd cs = CHR ''*'' then Some (2, []) else Some (1, []))
          else if c = CHR ''_'' then
            (if cs \<noteq> [] \<and> hd cs = CHR ''_'' then Some (2, [])
             else if (case prev of None \<Rightarrow> True | Some p \<Rightarrow> \<not> is_word p)
                     \<and> (cs = [] \<or> \<not> is_word (hd cs))
             then Some (1, [])
             else None)
          else None)"

text \<open>\<open>\[([^\]]+)\]\([^)]+\)\<close>, replaced by group 1, the label.\<close>

definition match_link :: matcher where
  "match_link prev s =
     (case s of
        [] \<Rightarrow> None
      | c # cs \<Rightarrow>
          if c = CHR ''['' then
            (let label = takeWhile (\<lambda>x. x \<noteq> CHR '']'') cs;
                 after_label = dropWhile (\<lambda>x. x \<noteq> CHR '']'') cs
             in if label \<noteq> [] \<and> startswith after_label '']'' \<and> startswith (drop 1 after_label) ''(''
                then (let url = takeWhile (\<lambda>x. x \<noteq> CHR '')'') (drop 2 after_label);
                          after_url = dropWhile (\<lambda>x. x \<noteq> CHR '')'') (drop 2 after_label)
                      in if url \<noteq> [] \<and> after_url \<noteq> []
                         then Some (1 + length label + 2 + length url + 1, label)
                         else None)
                else None)
          else None)"

text \<open>\<open>!\[([^\]]+)\]\([^)]+\)\<close>, replaced by the empty string.\<close>

definition match_image :: matcher where
  "match_image prev s =
     (case s of
        [] \<Rightarrow> None
      | c # cs \<Rightarrow>
          if c = CHR ''!'' then
            (case match_link (Some c) cs of
               None \<Rightarrow> None
             | Some (n, label) \<Rightarrow> Some (Suc n, []))
          else None)"

text \<open>A fence, a run of characters other than the backtick, a fence; replaced by the empty string.\<close>

definition match_code_block :: matcher where
  "match_code_block prev s =
     (if startswith s fence then
        (let body = takeWhile (\<lambda>x. x \<noteq> backtick) (drop 3 s);
             after_body = dropWhile (\<lambda>x. x \<noteq> backtick) (drop 3 s)
         in if startswith after_body fence then Some (3 + length body + 3, []) else None)
      else None)"

text \<open>
  The substitutions of \<open>convert_md_to_txt\<close>, in the order of the source: headers,
  bold and italic, links, images, code blocks.
\<close>

definition txt_content :: "string \<Rightarrow> string" where
  "txt_content md_content =
     re_sub match_code_block None
       (re_sub match_image None
          (re_sub match_link None
             (re_sub match_emphasis None
                (re_sub match_header None md_content))))"

text \<open>\<open>s\<close> contains \<open>sub\<close> (Python's \<open>sub in s\<close>).\<close>

definition contains :: "string \<Rightarrow> string \<Rightarrow> bool" where
  "contains s sub = (str_find s sub \<noteq> None)"

section \<open>DOCX to Markdown\<close>

text \<open>
  The document body as \<open>convert_docx_to_md\<close> reads it: a sequence of blocks in document
  order. A paragraph has its style name, its text (\<open>para.text\<close>) and its runs; a run has
  its text, its bold and italic flags (as truth values) and whether its element is a
  drawing. A table is its rows, each row the text of its cells. Every other body element
  (a section's properties, for one) is neither a paragraph nor a table.
\<close>

record run =
  run_text :: string
  run_bold :: bool
  run_italic :: bool
  run_is_drawing :: bool

record docx_paragraph =
  style_name :: string
  para_text :: string
  para_runs :: "run list"

datatype block = CT_P docx_paragraph | CT_Tbl "string list list" | CT_Other

text \<open>
  The line-break marker of this converter: the Python literal \<open>'\\n'\<close>, which is the two
  characters backslash and \<open>n\<close>.
\<close>

definition br :: string where
  "br = [backslash, CHR ''n'']"

text \<open>
  \<open>int(c)\<close> for a string of one character: its value when it is a decimal digit,
  \<open>None\<close> for the \<open>ValueError\<close> of every other character.
\<close>

definition py_int_char :: "char \<Rightarrow> nat option" where
  "py_int_char c =
     (let n = (of_char c :: nat) in if 48 \<le> n \<and> n \<le> 57 then Some (n - 48) else None)"

text \<open>\<open>s.lower()\<close> on code points below 256.\<close>

definition lower_char :: "char \<Rightarrow> char" where
  "lower_char c =
     (let n = (of_char c :: nat)
      in if (65 \<le> n \<and> n \<le> 90) \<or> (192 \<le> n \<and> n \<le> 214) \<or> (216 \<le> n \<and> n \<le> 222)
         then char_of (n + 32) else c)"

definition py_lower :: "string \<Rightarrow> string" where
  "py_lower s = map lower_char s"

text \<open>
  The branch of a paragraph whose style name starts with \<open>Heading\<close>: the level is the
  last character of the style name read as an integer; when that raises \<open>ValueError\<close>
  the names \<open>title\<close> and \<open>subtitle\<close> are looked for, and the level is 1 otherwise. A
  level of 0 is written as a heading of level 2.
\<close>

definition heading_level :: "string \<Rightarrow> nat" where
  "heading_level name =
     (case py_int_char (last name) of
        Some d \<Rightarrow> d
      | None \<Rightarrow>
          if py_lower name = ''title'' then 1
          else if py_lower name = ''subtitle'' then 2
          else 1)"

definition heading_md :: "string \<Rightarrow> string \<Rightarrow> string" where
  "heading_md name text =
     (let heading_level = heading_level name
      in if heading_level > 0
         then replicate heading_level CHR ''#'' @ '' '' @ strip text @ br @ br
         else ''## '' @ strip text @ br @ br)"

definition run_md :: "run \<Rightarrow> string" where
  "run_md r =
     (if run_bold r \<and> run_italic r then ''***'' @ run_text r @ ''***''
      else if run_bold r then ''**'' @ run_text r @ ''**''
      else if run_italic r then ''*'' @ run_text r @ ''*''
      else run_text r)"

definition table_row_md :: "string list \<Rightarrow> string" where
  "table_row_md cells = ''| '' @ str_join '' | '' (map strip cells) @ '' |'' @ br"

definition table_separator_md :: "string list \<Rightarrow> string" where
  "table_separator_md header_cells =
     ''| '' @ str_join '' | '' (map (\<lambda>_. ''---'') header_cells) @ '' |'' @ br"

text \<open>What one block appends to \<open>md_content\<close>.\<close>

fun block_md :: "block \<Rightarrow> string list" where
  "block_md (CT_P para) =
     (if strip (para_text para) = [] then
        (if \<not> list_ex run_is_drawing (para_runs para) then [br] else [])
      else if startswith (style_name para) ''Heading'' then
        [heading_md (style_name para) (para_text para)]
      else [concat (map run_md (para_runs para)) @ br @ br])"
| "block_md (CT_Tbl rows) =
     (if rows = [] then []
      else [table_row_md (hd rows), table_separator_md (hd rows)]
           @ map table_row_md (tl rows) @ [br])"
| "block_md CT_Other = []"

text \<open>
  The clean-up \<open>re.sub(r'(\\n){3,}', '\\n\\n', final_md)\<close>. The pattern matches three
  or more markers in a row, as many as there are. The replacement is a template in which
  \<open>re.sub\<close> reads backslash escapes: the four characters of \<open>'\\n\\n'\<close> stand for two
  newline characters.
\<close>

fun count_markers :: "string \<Rightarrow> nat" where
  "count_markers (a # b # rest) =
     (if a = backslash \<and> b = CHR ''n'' then Suc (count_markers rest) else 0)"
| "count_markers _ = 0"

definition match_breaks :: matcher where
  "match_breaks prev s =
     (let k = count_markers s
      in if 3 \<le> k then Some (2 * k, [newline, newline]) else None)"

text \<open>\<open>final_md\<close>, the text written to the side file, and the text returned.\<close>

definition final_md :: "block list \<Rightarrow> string" where
  "final_md body = re_sub match_breaks None (concat (concat (map block_md body)))"

definition docx_md :: "block list \<Rightarrow> string" where
  "docx_md body = strip (final_md body)"

text \<open>A paragraph of one plain run, for examples.\<close>

definition body_para :: "string \<Rightarrow> string \<Rightarrow> block" where
  "body_para name text =
     CT_P \<lparr>style_name = name, para_text = text,
           para_runs = [\<lparr>run_text = text, run_bold = False, run_italic = False,
                         run_is_drawing = False\<rparr>]\<rparr>"

text \<open>
  A row of a pipe table as the specification counts it: its cells between pipes. The rows of
  a text are written one after the other, each ended by the line-break marker.
\<close>

definition pipe_row :: "string list \<Rightarrow> string" where
  "pipe_row cells = ''| '' @ str_join '' | '' cells @ '' |''"

definition marked_lines :: "string list \<Rightarrow> string" where
  "marked_lines ls = concat (map (\<lambda>l. l @ br) ls)"

text \<open>
  The text of a cell as it stands in the returned Markdown: stripped, and with the clean-up
  applied to it (a cell that holds no run of three markers is only stripped).
\<close>

definition cell_md :: "string \<Rightarrow> string" where
  "cell_md cell_text = re_sub match_breaks None (strip cell_text)"

section \<open>The converters and their failures\<close>

text \<open>
  A call into a library or the file system either returns a value or raises: \<open>Inr v\<close> is
  the value returned, \<open>Inl msg\<close> an exception of class \<open>Exception\<close> whose \<open>str(e)\<close> is
  \<open>msg\<close>. A converter has the same type of result, so that an exception leaving it can be
  written down. What a converter prints is kept as a list: a line of text, or the \<open>repr\<close> of
  a string.
\<close>

type_synonym 'a raised = "string + 'a"

datatype printed = Line string | Repr string

text \<open>\<open>str(n)\<close> for a natural number.\<close>

definition digit_char :: "nat \<Rightarrow> char" where
  "digit_char d = char_of (48 + d)"

fun str_of_nat :: "nat \<Rightarrow> string" where
  "str_of_nat n =
     (if n < 10 then [digit_char n] else str_of_nat (n div 10) @ [digit_char (n mod 10)])"

declare str_of_nat.simps [simp del]

subsection \<open>\<open>convert_pdf_to_md\<close>\<close>

text \<open>
  A page of an opened PDF: what \<open>page.get_text()\<close> does, and one entry per image of
  \<open>page.get_images(full=True)\<close>: the decoded image when extracting, opening and saving it
  all return, the exception otherwise. \<open>image_path\<close> stands for
  \<open>os.path.join(os.path.dirname(pdf_path), img_filename)\<close> as a function of the file name.
  The files saved are listed with their paths in the order they are written; the files
  written before an exception stay.
\<close>

record 'img pdf_page =
  get_text :: "string raised"
  get_images :: "'img raised list"

definition page_header :: "nat \<Rightarrow> string" where
  "page_header page_num = ''## Page '' @ str_of_nat (page_num + 1) @ [newline]"

definition img_filename :: "nat \<Rightarrow> nat \<Rightarrow> string" where
  "img_filename page_num img_index =
     ''image_p'' @ str_of_nat (page_num + 1) @ ''_'' @ str_of_nat (img_index + 1) @ ''.png''"

definition image_reference :: "nat \<Rightarrow> nat \<Rightarrow> string" where
  "image_reference page_num img_index =
     ''![Image '' @ str_of_nat (img_index + 1) @ '' from page '' @ str_of_nat (page_num + 1)
       @ '']('' @ img_filename page_num img_index @ '')'' @ [newline, newline]"

fun images_loop ::
  "(string \<Rightarrow> string) \<Rightarrow> nat \<Rightarrow> nat \<Rightarrow> 'img raised list \<Rightarrow> string list \<Rightarrow> (string \<times> 'img) list
     \<Rightarrow> string option \<times> string list \<times> (string \<times> 'img) list" where
  "images_loop image_path page_num img_index [] md_content files = (None, md_content, files)"
| "images_loop image_path page_num img_index (img # imgs) md_content files =
     (case img of
        Inl e \<Rightarrow> (Some e, md_content, files)
      | Inr saved_image \<Rightarrow>
          images_loop image_path page_num (Suc img_index) imgs
            (md_content @ [image_reference page_num img_index])
            (files @ [(image_path (img_filename page_num img_index), saved_image)]))"

fun pages_loop ::
  "(string \<Rightarrow> string) \<Rightarrow> nat \<Rightarrow> 'img pdf_page list \<Rightarrow> string list \<Rightarrow> (string \<times> 'img) list
     \<Rightarrow> string option \<times> string list \<times> (string \<times> 'img) list" where
  "pages_loop image_path page_num [] md_content files = (None, md_content, files)"
| "pages_loop image_path page_num (page # pages) md_content files =
     (case get_text page of
        Inl e \<Rightarrow> (Some e, md_content, files)
      | Inr text \<Rightarrow>
          (case images_loop image_path page_num 0 (get_images page)
                  (md_content @ [page_header page_num, text, [newline, newline]]) files of
             (Some e, md_content', files') \<Rightarrow> (Some e, md_content', files')
           | (None, md_content', files') \<Rightarrow>
               pages_loop image_path (Suc page_num) pages md_content' files'))"

definition convert_pdf_to_md ::
  "(string \<Rightarrow> string) \<Rightarrow> 'img pdf_page list raised \<Rightarrow> string raised \<times> (string \<times> 'img) list" where
  "convert_pdf_to_md image_path fitz_open =
     (case fitz_open of
        Inl e \<Rightarrow> (Inr (''Error converting PDF to Markdown: '' @ e), [])
      | Inr doc \<Rightarrow>
          (case pages_loop image_path 0 doc [] [] of
             (Some e, md_content, files) \<Rightarrow>
               (Inr (''Error converting PDF to Markdown: '' @ e), files)
           | (None, md_content, files) \<Rightarrow> (Inr (concat md_content), files)))"

text \<open>
  The words of the specification for a readable PDF, with pages and images numbered from 1:
  per page a page-number heading, the text, a blank separator, and one reference per
  image; and the side files, named \<open>image_p{page}_{index}.png\<close>.
\<close>

definition spec_image_name :: "nat \<Rightarrow> nat \<Rightarrow> string" where
  "spec_image_name p i = ''image_p'' @ str_of_nat p @ ''_'' @ str_of_nat i @ ''.png''"

definition spec_image_reference :: "nat \<Rightarrow> nat \<Rightarrow> string" where
  "spec_image_reference p i =
     ''![Image '' @ str_of_nat i @ '' from page '' @ str_of_nat p @ '']('' @ spec_image_name p i
       @ '')'' @ [newline, newline]"

definition spec_page_md :: "nat \<Rightarrow> string \<Rightarrow> 'img list \<Rightarrow> string" where
  "spec_page_md p text imgs =
     ''## Page '' @ str_of_nat p @ [newline] @ text @ [newline, newline]
       @ concat (map (\<lambda>(i, img). spec_image_reference p i) (enumerate 1 imgs))"

definition spec_pdf_md :: "(string \<times> 'img list) list \<Rightarrow> string" where
  "spec_pdf_md pages = concat (map (\<lambda>(p, text, imgs). spec_page_md p text imgs) (enumerate 1 pages))"

definition spec_pdf_files :: "(string \<Rightarrow> string) \<Rightarrow> (string \<times> 'img list) list \<Rightarrow> (string \<times> 'img) list" where
  "spec_pdf_files image_path pages =
     concat (map (\<lambda>(p, text, imgs).
                    map (\<lambda>(i, img). (image_path (spec_image_name p i), img)) (enumerate 1 imgs))
                 (enumerate 1 pages))"

definition readable_page :: "string \<times> 'img list \<Rightarrow> 'img pdf_page" where
  "readable_page tp = \<lparr>get_text = Inr (fst tp), get_images = map Inr (snd tp)\<rparr>"

subsection \<open>\<open>convert_docx_to_md\<close>\<close>


subsection \<open>\<open>convert_docx_to_pdf\<close>\<close>




subsection \<open>\<open>convert_txt_to_md\<close>\<close>




definition is_digit :: "char \<Rightarrow> bool" where
  "is_digit c = (let n = (of_char c :: nat) in 48 \<le> n \<and> n \<le> 57)"




subsection \<open>\<open>convert_md_to_pdf\<close>\<close>








subsection \<open>\<open>convert_md_to_docx\<close>\<close>




subsection \<open>\<open>convert_md_to_txt\<close>\<close>

text \<open>
  The result is the flag returned, the lines printed and the text written to
  \<open>output_path\<close> when writing it returned.
\<close>

definition convert_md_to_txt ::
  "string raised \<Rightarrow> unit raised \<Rightarrow> bool raised \<times> printed list \<times> string option" where
  "convert_md_to_txt read_md_file write_txt =
     (let failed = (\<lambda>e. (Inr False, [Line (''Error converting Markdown to TXT: '' @ e)], None))
      in case read_md_file of
           Inl e \<Rightarrow> failed e
         | Inr md_content \<Rightarrow>
             (case write_txt of
                Inl e \<Rightarrow> failed e
              | Inr _ \<Rightarrow> (Inr True, [], Some (txt_content md_content))))"


section \<open>Properties of the string primitives\<close>

text \<open>
  \<open>str_find\<close> and \<open>str_rfind\<close> against occurrences: what they return is the first
  occurrence, and the last one at or after the start index.
\<close>

lemma occurs_at_0: "occurs_at s sub 0 = startswith s sub"
  by (auto simp: occurs_at_def startswith_def) (metis length_take min.absorb_iff2 nat_le_linear take_all)

lemma occurs_at_Suc: "occurs_at (c # cs) sub (Suc i) = occurs_at cs sub i"
  by (simp add: occurs_at_def)

lemma occurs_at_Nil: "occurs_at [] sub i = (sub = [] \<and> i = 0)"
  by (auto simp: occurs_at_def)

lemma str_find_None: "str_find s sub = None \<Longrightarrow> \<not> occurs_at s sub i"
proof (induction s arbitrary: i)
  case Nil
  then show ?case by (simp add: occurs_at_Nil split: if_splits)
next
  case (Cons c cs)
  then show ?case
    by (cases i) (auto simp: occurs_at_0 occurs_at_Suc split: if_splits)
qed

lemma str_find_Some:
  "str_find s sub = Some i \<Longrightarrow> occurs_at s sub i \<and> (\<forall>j<i. \<not> occurs_at s sub j)"
proof (induction s arbitrary: i)
  case Nil
  then show ?case by (simp add: occurs_at_Nil split: if_splits)
next
  case (Cons c cs)
  show ?case
  proof (cases "startswith (c # cs) sub")
    case True
    with Cons.prems show ?thesis by (simp add: occurs_at_0)
  next
    case False
    with Cons.prems obtain k where k: "str_find cs sub = Some k" "i = Suc k"
      by auto
    from Cons.IH [OF k(1)] have ih: "occurs_at cs sub k" "\<forall>j<k. \<not> occurs_at cs sub j"
      by simp_all
    have "\<not> occurs_at (c # cs) sub j" if "j < i" for j
    proof (cases j)
      case 0
      with False show ?thesis by (simp add: occurs_at_0)
    next
      case (Suc m)
      with that k(2) ih(2) show ?thesis by (simp add: occurs_at_Suc)
    qed
    with ih(1) k(2) show ?thesis by (simp add: occurs_at_Suc)
  qed
qed

lemma rfind_last_None: "rfind_last s sub = None \<Longrightarrow> \<not> occurs_at s sub i"
proof (induction s arbitrary: i)
  case Nil
  then show ?case by (simp add: occurs_at_Nil split: if_splits)
next
  case (Cons c cs)
  then show ?case
    by (cases i) (auto simp: occurs_at_0 occurs_at_Suc split: if_splits option.splits)
qed

lemma rfind_last_Some:
  "rfind_last s sub = Some i \<Longrightarrow> occurs_at s sub i \<and> (\<forall>j>i. \<not> occurs_at s sub j)"
proof (induction s arbitrary: i)
  case Nil
  then show ?case by (simp add: occurs_at_Nil split: if_splits)
next
  case (Cons c cs)
  show ?case
  proof (cases "rfind_last cs sub")
    case None
    with Cons.prems have i: "i = 0" "startswith (c # cs) sub"
      by (auto split: if_splits)
    have "\<not> occurs_at (c # cs) sub j" if "j > i" for j
    proof (cases j)
      case 0
      with that show ?thesis by simp
    next
      case (Suc m)
      with rfind_last_None [OF None] show ?thesis by (simp add: occurs_at_Suc)
    qed
    with i show ?thesis by (simp add: occurs_at_0)
  next
    case (Some k)
    with Cons.prems have i: "i = Suc k" by simp
    from Cons.IH [OF Some] have ih: "occurs_at cs sub k" "\<forall>j>k. \<not> occurs_at cs sub j"
      by simp_all
    have "\<not> occurs_at (c # cs) sub j" if "j > i" for j
    proof (cases j)
      case 0
      with that show ?thesis by simp
    next
      case (Suc m)
      with that i ih(2) show ?thesis by (simp add: occurs_at_Suc)
    qed
    with ih(1) i show ?thesis by (simp add: occurs_at_Suc)
  qed
qed

lemma occurs_at_drop: "start \<le> length s \<Longrightarrow> occurs_at (drop start s) sub i = occurs_at s sub (start + i)"
  by (auto simp: occurs_at_def add.commute)

lemma str_rfind_Some:
  assumes "str_rfind s sub start = Some e"
  shows "start \<le> e \<and> occurs_at s sub e \<and> (\<forall>j>e. \<not> occurs_at s sub j)"
proof -
  from assms obtain i where i: "start \<le> length s" "rfind_last (drop start s) sub = Some i" "e = start + i"
    by (auto simp: str_rfind_def split: if_splits)
  from rfind_last_Some [OF i(2)] have a: "occurs_at (drop start s) sub i"
    and b: "\<forall>j>i. \<not> occurs_at (drop start s) sub j" by simp_all
  have "\<not> occurs_at s sub j" if "j > e" for j
  proof -
    from that i(3) have "j - start > i" "j = start + (j - start)" by simp_all
    with b i(1) show ?thesis by (metis occurs_at_drop)
  qed
  with a i show ?thesis by (simp add: occurs_at_drop)
qed

lemma str_rfind_None:
  assumes "str_rfind s sub start = None" "start \<le> e"
  shows "\<not> occurs_at s sub e"
proof (cases "length s < start")
  case True
  with assms(2) show ?thesis by (simp add: occurs_at_def)
next
  case False
  with assms(1) have "rfind_last (drop start s) sub = None"
    by (simp add: str_rfind_def)
  from rfind_last_None [OF this, of "e - start"] False assms(2) show ?thesis
    by (simp add: occurs_at_drop)
qed

lemma str_find_first: "first_occurrence s sub i \<Longrightarrow> str_find s sub = Some i"
proof -
  assume a: "first_occurrence s sub i"
  show ?thesis
  proof (cases "str_find s sub")
    case None
    from str_find_None [OF None, of i] a show ?thesis by (simp add: first_occurrence_def)
  next
    case (Some k)
    from str_find_Some [OF Some] a have "k = i"
      unfolding first_occurrence_def by (meson linorder_neqE_nat)
    with Some show ?thesis by simp
  qed
qed

lemma str_rfind_last:
  assumes "start \<le> e" "occurs_at s sub e" "\<forall>j>e. \<not> occurs_at s sub j"
  shows "str_rfind s sub start = Some e"
proof (cases "str_rfind s sub start")
  case None
  from str_rfind_None [OF None assms(1)] assms(2) show ?thesis by simp
next
  case (Some k)
  from str_rfind_Some [OF Some] assms have "k = e"
    by (meson linorder_neqE_nat)
  with Some show ?thesis by simp
qed

lemma rev_dropWhile_decomp:
  "xs = rev (dropWhile P (rev xs)) @ rev (takeWhile P (rev xs))"
proof -
  have "rev (takeWhile P (rev xs) @ dropWhile P (rev xs)) = xs"
    by (simp only: takeWhile_dropWhile_id rev_rev_ident)
  then show ?thesis by (simp only: rev_append)
qed

lemma strip_decomp:
  "\<exists>l t. s = l @ strip s @ t \<and> list_all isspace l \<and> list_all isspace t"
proof -
  let ?d = "dropWhile isspace s"
  have 1: "s = takeWhile isspace s @ ?d" by simp
  have 2: "?d = strip s @ rev (takeWhile isspace (rev ?d))"
    unfolding strip_def by (rule rev_dropWhile_decomp)
  have 3: "list_all isspace (takeWhile isspace s)"
    by (simp add: list_all_iff) (meson set_takeWhileD)
  have 4: "list_all isspace (rev (takeWhile isspace (rev ?d)))"
    by (simp add: list_all_iff) (meson set_takeWhileD)
  from 1 2 have "s = takeWhile isspace s @ strip s @ rev (takeWhile isspace (rev ?d))"
    by metis
  with 3 4 show ?thesis by blast
qed

lemma strip_ends: "strip s \<noteq> [] \<Longrightarrow> \<not> isspace (hd (strip s)) \<and> \<not> isspace (last (strip s))"
proof -
  assume ne: "strip s \<noteq> []"
  let ?d = "dropWhile isspace s"
  let ?e = "dropWhile isspace (rev ?d)"
  from ne have e: "?e \<noteq> []" by (simp add: strip_def)
  then have "\<not> isspace (hd ?e)" by (rule hd_dropWhile)
  moreover from e have "last (rev ?e) = hd ?e" by (simp add: last_rev)
  ultimately have l: "\<not> isspace (last (strip s))" by (simp add: strip_def)
  have d: "?d \<noteq> []"
  proof
    assume a: "?d = []"
    have "?e = []" unfolding a by simp
    with e show False by simp
  qed
  then have hd: "\<not> isspace (hd ?d)" by (rule hd_dropWhile)
  have "?d = strip s @ rev (takeWhile isspace (rev ?d))"
    unfolding strip_def by (rule rev_dropWhile_decomp)
  with ne have "hd ?d = hd (strip s)" by (metis hd_append2)
  with hd l show ?thesis by simp
qed

lemma strip_trimmed: "trimmed_of s (strip s)"
  using strip_decomp [of s] strip_ends [of s] unfolding trimmed_of_def by blast

lemma occurs_at_append: "occurs_at s sub i \<Longrightarrow> occurs_at (l @ s @ t) sub (length l + i)"
  by (auto simp: occurs_at_def)

lemma startswith_strip_occurs:
  assumes "startswith (strip s) sub"
  shows "\<exists>i. occurs_at s sub i"
proof -
  from strip_decomp [of s] obtain l t where s: "s = l @ strip s @ t" by blast
  from assms have "occurs_at (strip s) sub 0" by (simp add: occurs_at_0)
  from occurs_at_append [OF this, of l t] s show ?thesis by (metis)
qed

lemma occurs_at_prefix: "occurs_at s (p @ q) i \<Longrightarrow> occurs_at s p i"
proof -
  assume h: "occurs_at s (p @ q) i"
  then have "take (length p) (take (length p + length q) (drop i s)) = take (length p) (p @ q)"
    by (simp add: occurs_at_def)
  then have "take (length p) (drop i s) = p" by (simp add: min_def)
  with h show ?thesis by (simp add: occurs_at_def)
qed

lemma occurs_fence_markdown: "occurs_at s fence_markdown i \<Longrightarrow> occurs_at s fence i"
  unfolding fence_markdown_def by (rule occurs_at_prefix)

lemmas str_eval = fence_def fence_markdown_def backtick_def newline_def backslash_def
  startswith_def endswith_def strip_def slice_def str_rfind_def isspace_def
  block_start_variants_def

section \<open>The Markup Normalizer\<close>

lemma find_start_tagged:
  assumes "opens_block md fence_markdown i"
  shows "find_start md block_start_variants = Some (fence_markdown, i + length fence_markdown)"
proof -
  from assms have "str_find md fence_markdown = Some i"
    by (simp add: opens_block_def str_find_first)
  with assms show ?thesis
    by (simp add: block_start_variants_def opens_block_def)
qed

lemma find_start_bare:
  assumes "opens_block md fence i" and "\<forall>j. \<not> opens_block md fence_markdown j"
  shows "find_start md block_start_variants = Some (fence, i + length fence)"
proof -
  from assms(1) have f: "str_find md fence = Some i"
    by (simp add: opens_block_def str_find_first)
  have "find_start md block_start_variants = find_start md [fence]"
  proof (cases "str_find md fence_markdown")
    case None
    then show ?thesis by (simp add: block_start_variants_def)
  next
    case (Some k)
    from str_find_Some [OF Some] have "first_occurrence md fence_markdown k"
      by (simp add: first_occurrence_def)
    with assms(2) have "\<not> (k = 0 \<or> isspace (md ! (k - 1)))"
      by (auto simp: opens_block_def)
    with Some show ?thesis by (simp add: block_start_variants_def)
  qed
  with f assms(1) show ?thesis by (simp add: opens_block_def)
qed

lemma find_start_no_fence:
  assumes "\<forall>i. \<not> occurs_at md fence i"
  shows "find_start md block_start_variants = None"
proof -
  have a: "str_find md fence = None"
  proof (cases "str_find md fence")
    case (Some k)
    from str_find_Some [OF Some] assms show ?thesis by simp
  qed simp
  have b: "str_find md fence_markdown = None"
  proof (cases "str_find md fence_markdown")
    case (Some k)
    from str_find_Some [OF Some] have "occurs_at md fence k"
      by (simp add: occurs_fence_markdown)
    with assms show ?thesis by simp
  qed simp
  from a b show ?thesis by (simp add: block_start_variants_def)
qed

text \<open>
  Claim C1, as the code has it. When a marker opens a block (the tagged fence when its
  first occurrence is at index 0 or follows a whitespace character, the bare fence
  otherwise, under the same condition) and a fence occurs at or after the end of that
  marker, the normalized text is what lies strictly between the end of the marker and
  the last fence of the text, trimmed of whitespace at both ends.
\<close>

theorem normalizer_greedy_last_fence:
  assumes "opens_block md marker i"
    and "marker = fence_markdown \<or> (marker = fence \<and> (\<forall>j. \<not> opens_block md fence_markdown j))"
    and "last_fence_from md (i + length marker) e"
  shows "cleaned_md_content md = strip (slice md (i + length marker) e)
         \<and> trimmed_of (slice md (i + length marker) e) (cleaned_md_content md)"
proof -
  from assms(1,2) have "find_start md block_start_variants = Some (marker, i + length marker)"
    using find_start_tagged find_start_bare by blast
  moreover from assms(3) have "str_rfind md fence (i + length marker) = Some e"
    by (simp add: last_fence_from_def str_rfind_last)
  ultimately have "cleaned_md_content md = strip (slice md (i + length marker) e)"
    by (simp add: cleaned_md_content_def)
  then show ?thesis by (simp add: strip_trimmed)
qed

theorem normalizer_greedy_last_fence_witness:
  "opens_block (''x '' @ fence_markdown @ [newline] @ ''hi'' @ [newline] @ fence) fence_markdown 2
   \<and> last_fence_from (''x '' @ fence_markdown @ [newline] @ ''hi'' @ [newline] @ fence)
        (2 + length fence_markdown) 17
   \<and> cleaned_md_content (''x '' @ fence_markdown @ [newline] @ ''hi'' @ [newline] @ fence) = ''hi''"
proof -
  let ?md = "''x '' @ fence_markdown @ [newline] @ ''hi'' @ [newline] @ fence"
  have f: "str_find ?md fence_markdown = Some 2"
    by (simp add: str_eval)
  have ob: "opens_block ?md fence_markdown 2"
    using str_find_Some [OF f] by (simp add: opens_block_def first_occurrence_def isspace_def)
  have r: "str_rfind ?md fence (2 + length fence_markdown) = Some 17"
    by (simp add: str_eval)
  have lf: "last_fence_from ?md (2 + length fence_markdown) 17"
    using str_rfind_Some [OF r] by (simp add: last_fence_from_def)
  have "cleaned_md_content ?md = strip (slice ?md (2 + length fence_markdown) 17)"
    using normalizer_greedy_last_fence [OF ob _ lf] by simp
  also have "\<dots> = ''hi''"
    by (simp add: str_eval)
  finally show ?thesis using ob lf by simp
qed

text \<open>
  The claim as it was written asks for this whenever a marker opens a block. With no
  fence at or after the end of the marker (\<open>str_rfind\<close> finds none) there is nothing to
  cut at: the source takes its other branch and returns the text as it came.
\<close>

theorem normalizer_unclosed_fence:
  "opens_block (fence @ '' hi'') fence 0
   \<and> str_rfind (fence @ '' hi'') fence (0 + length fence) = None
   \<and> cleaned_md_content (fence @ '' hi'') = fence @ '' hi''"
proof -
  have "str_find (fence @ '' hi'') fence = Some 0"
    by (simp add: str_eval)
  from str_find_Some [OF this] have "opens_block (fence @ '' hi'') fence 0"
    by (simp add: opens_block_def first_occurrence_def)
  then show ?thesis
    by (simp add: cleaned_md_content_def str_eval)
qed

text \<open>
  Claim C6, as the code has it. A text with no fence in it is returned unchanged: the
  normalizer does not trim it.
\<close>

theorem normalizer_no_fence_unchanged:
  assumes "\<forall>i. \<not> occurs_at md fence i"
  shows "cleaned_md_content md = md"
proof -
  from assms have "\<not> startswith (strip md) fence"
    using startswith_strip_occurs by blast
  with find_start_no_fence [OF assms] show ?thesis
    by (simp add: cleaned_md_content_def)
qed

theorem normalizer_no_fence_unchanged_witness:
  "cleaned_md_content '' hi'' = '' hi''"
proof -
  have "str_find '' hi'' fence = None"
    by (simp add: str_eval)
  then have "\<forall>i. \<not> occurs_at '' hi'' fence i"
    using str_find_None by blast
  then show ?thesis by (rule normalizer_no_fence_unchanged)
qed

text \<open>The claim as it was written has the text trimmed; a leading space stays.\<close>

theorem normalizer_not_trimmed:
  "cleaned_md_content '' hi'' = '' hi'' \<and> strip '' hi'' = ''hi'' \<and> str_find '' hi'' fence = None"
  by (simp add: cleaned_md_content_def str_eval)

section \<open>Markdown to plain text\<close>

text \<open>
  A substitution whose replacements are made of characters of the text adds no character;
  the second substitution of \<open>convert_md_to_txt\<close> leaves no asterisk.
\<close>

lemma re_sub_subset:
  assumes "\<And>p s n r. m p s = Some (n, r) \<Longrightarrow> set r \<subseteq> set s"
  shows "set (re_sub m p s) \<subseteq> set s"
  using assms
proof (induction m p s rule: re_sub.induct)
  case (1 m prev)
  then show ?case by simp
next
  case (2 m prev c cs)
  show ?case
  proof (cases "m prev (c # cs)")
    case None
    with 2 show ?thesis by auto
  next
    case (Some a)
    obtain n repl where a: "a = (n, repl)" by (cases a)
    show ?thesis
    proof (cases "n = 0 \<or> length (c # cs) < n")
      case True
      from "2.IH"(2) [OF Some a [symmetric] True] "2.prems"
      have "set (re_sub m (Some c) cs) \<subseteq> set cs" by blast
      with Some a True show ?thesis by auto
    next
      case False
      from "2.prems" Some a have r: "set repl \<subseteq> set (c # cs)" by blast
      from "2.IH"(3) [OF Some a [symmetric] False] "2.prems"
      have "set (re_sub m (Some ((c # cs) ! (n - 1))) (drop n (c # cs))) \<subseteq> set (drop n (c # cs))"
        by blast
      moreover have "set (drop n (c # cs)) \<subseteq> set (c # cs)" by (rule set_drop_subset)
      ultimately show ?thesis using Some a False r by auto
    qed
  qed
qed

lemma match_header_repl: "match_header p s = Some (n, r) \<Longrightarrow> set r \<subseteq> set s"
  by (auto simp: match_header_def Let_def split: if_splits)

lemma match_link_repl: "match_link p s = Some (n, r) \<Longrightarrow> set r \<subseteq> set s"
  by (auto simp: match_link_def Let_def split: if_splits list.splits dest: set_takeWhileD)

lemma match_image_repl: "match_image p s = Some (n, r) \<Longrightarrow> set r \<subseteq> set s"
  by (auto simp: match_image_def split: if_splits list.splits option.splits)

lemma match_code_block_repl: "match_code_block p s = Some (n, r) \<Longrightarrow> set r \<subseteq> set s"
  by (auto simp: match_code_block_def Let_def split: if_splits)

lemma re_sub_emphasis_no_star: "CHR ''*'' \<notin> set (re_sub match_emphasis p s)"
proof (induction "match_emphasis" p s rule: re_sub.induct)
  case (1 prev)
  then show ?case by simp
next
  case (2 prev c cs)
  show ?case
  proof (cases "match_emphasis prev (c # cs)")
    case None
    then have "c \<noteq> CHR ''*''" by (auto simp: match_emphasis_def split: if_splits)
    with 2 None show ?thesis by simp
  next
    case (Some a)
    obtain n repl where a: "a = (n, repl)" by (cases a)
    from Some a have n: "repl = []" "n = 1 \<or> n = 2" "n = 2 \<longrightarrow> cs \<noteq> []"
      by (auto simp: match_emphasis_def split: if_splits)
    then have False: "\<not> (n = 0 \<or> length (c # cs) < n)" by auto
    from "2.hyps"(3) [OF Some a [symmetric] False] Some a n False show ?thesis by simp
  qed
qed

lemma txt_content_no_star: "CHR ''*'' \<notin> set (txt_content md)"
proof -
  let ?a = "re_sub match_emphasis None (re_sub match_header None md)"
  let ?b = "re_sub match_link None ?a"
  let ?c = "re_sub match_image None ?b"
  have "set (txt_content md) \<subseteq> set ?c"
    unfolding txt_content_def by (rule re_sub_subset) (rule match_code_block_repl)
  also have "\<dots> \<subseteq> set ?b" by (rule re_sub_subset) (rule match_image_repl)
  also have "\<dots> \<subseteq> set ?a" by (rule re_sub_subset) (rule match_link_repl)
  finally show ?thesis using re_sub_emphasis_no_star by blast
qed

lemma occurs_at_set: "occurs_at s sub i \<Longrightarrow> set sub \<subseteq> set s"
proof -
  assume "occurs_at s sub i"
  then have "sub = take (length sub) (drop i s)" by (simp add: occurs_at_def)
  then have "set sub \<subseteq> set (drop i s)" by (metis set_take_subset)
  then show ?thesis using set_drop_subset by fastforce
qed

lemma not_contains: "c \<in> set sub \<Longrightarrow> c \<notin> set s \<Longrightarrow> \<not> contains s sub"
proof
  assume c: "c \<in> set sub" "c \<notin> set s" and "contains s sub"
  then obtain i where "str_find s sub = Some i" by (auto simp: contains_def)
  from str_find_Some [OF this] have "occurs_at s sub i" by simp
  from occurs_at_set [OF this] c show False by blast
qed

lemmas re_eval = txt_content_def match_header_def match_emphasis_def match_link_def
  match_image_def match_code_block_def contains_def is_word_def


text \<open>
  Claim C7, as the code has it. The text that \<open>convert_md_to_txt\<close> writes holds no
  asterisk, and so never the substring of two asterisks.
\<close>

theorem md_to_txt_no_asterisk:
  assumes "convert_md_to_txt read_md_file write_txt = (Inr True, out, Some written)"
  shows "CHR ''*'' \<notin> set written \<and> \<not> contains written ''**''"
proof -
  from assms obtain md where "written = txt_content md"
    by (auto simp: convert_md_to_txt_def Let_def split: sum.splits)
  then have "CHR ''*'' \<notin> set written" by (simp add: txt_content_no_star)
  then show ?thesis using not_contains [of "CHR ''*''" "''**''" written] by simp
qed

theorem md_to_txt_no_asterisk_witness:
  "convert_md_to_txt (Inr ''# a **b**'') (Inr ()) = (Inr True, [], Some ''a b'')
   \<and> CHR ''*'' \<notin> set ''a b'' \<and> \<not> contains ''a b'' ''**''"
proof -
  have c: "convert_md_to_txt (Inr ''# a **b**'') (Inr ()) = (Inr True, [], Some ''a b'')"
    by (simp add: convert_md_to_txt_def re_eval str_eval)
  from md_to_txt_no_asterisk [OF c] c show ?thesis by simp
qed


text \<open>
  The claim as it was written also rules out two hashes and a closing bracket followed by
  an opening parenthesis. Hashes are removed only before whitespace, and a link only when
  its address is not empty: both substrings can stay.
\<close>

theorem md_to_txt_keeps_hashes_and_brackets:
  "convert_md_to_txt (Inr ''##x'') (Inr ()) = (Inr True, [], Some ''##x'')
   \<and> contains ''##x'' ''##''
   \<and> convert_md_to_txt (Inr ''[a]()'') (Inr ()) = (Inr True, [], Some ''[a]()'')
   \<and> contains ''[a]()'' ''](''"
  by (simp add: convert_md_to_txt_def re_eval str_eval)
section \<open>DOCX to Markdown\<close>

subsection \<open>Headings\<close>

lemma digit_char_simps:
  "digit_char 0 = CHR ''0''" "digit_char 1 = CHR ''1''" "digit_char 2 = CHR ''2''"
  "digit_char 3 = CHR ''3''" "digit_char 4 = CHR ''4''" "digit_char 5 = CHR ''5''"
  "digit_char 6 = CHR ''6''" "digit_char 7 = CHR ''7''" "digit_char 8 = CHR ''8''"
  "digit_char 9 = CHR ''9''"
  by code_simp+

lemma py_int_char_digit: "d \<le> 9 \<Longrightarrow> py_int_char (digit_char d) = Some d"
  by (simp add: py_int_char_def digit_char_def)

lemma py_int_char_not_digit: "\<not> is_digit c \<Longrightarrow> py_int_char c = None"
  by (simp add: py_int_char_def is_digit_def Let_def)

lemma heading_not_title:
  assumes "startswith name ''Heading''"
  shows "py_lower name \<noteq> ''title'' \<and> py_lower name \<noteq> ''subtitle''"
proof -
  from assms have t: "take (length ''Heading'') name = ''Heading''"
    by (simp only: startswith_def)
  have "take (length ''Heading'') name @ drop (length ''Heading'') name = name"
    by (rule append_take_drop_id)
  then have "''Heading'' @ drop (length ''Heading'') name = name" by (simp only: t)
  then obtain rest where "name = ''Heading'' @ rest" by metis
  then show ?thesis by (simp add: py_lower_def lower_char_def)
qed

lemma heading_level_digit:
  "startswith name ''Heading'' \<Longrightarrow> d \<le> 9 \<Longrightarrow> last name = digit_char d \<Longrightarrow> heading_level name = d"
  by (simp add: heading_level_def py_int_char_digit)

lemma heading_level_other:
  "startswith name ''Heading'' \<Longrightarrow> \<not> is_digit (last name) \<Longrightarrow> heading_level name = 1"
  using heading_not_title [of name] by (simp add: heading_level_def py_int_char_not_digit)

text \<open>
  Claim C3, as the code has it. A paragraph with text whose style name starts with
  \<open>Heading\<close> becomes a heading: of level \<open>d\<close> when the name ends in a digit \<open>d\<close> from 1
  to 9, of level 2 when it ends in the digit 0, and of level 1 when it ends in no digit.
\<close>

theorem heading_classification:
  assumes "strip (para_text para) \<noteq> []" and "startswith (style_name para) ''Heading''"
  shows "(\<forall>d. 1 \<le> d \<and> d \<le> 9 \<and> last (style_name para) = digit_char d \<longrightarrow>
            block_md (CT_P para) = [replicate d CHR ''#'' @ '' '' @ strip (para_text para) @ br @ br])
         \<and> (last (style_name para) = CHR ''0'' \<longrightarrow>
            block_md (CT_P para) = [''## '' @ strip (para_text para) @ br @ br])
         \<and> (\<not> is_digit (last (style_name para)) \<longrightarrow>
            block_md (CT_P para) = [''# '' @ strip (para_text para) @ br @ br])"
proof (intro conjI allI impI)
  fix d
  assume d: "1 \<le> d \<and> d \<le> 9 \<and> last (style_name para) = digit_char d"
  with assms(2) have "heading_level (style_name para) = d"
    by (simp add: heading_level_digit)
  with assms d show "block_md (CT_P para) = [replicate d CHR ''#'' @ '' '' @ strip (para_text para) @ br @ br]"
    by (simp add: heading_md_def)
next
  assume "last (style_name para) = CHR ''0''"
  then have "heading_level (style_name para) = 0"
    by (simp add: heading_level_def py_int_char_def)
  with assms show "block_md (CT_P para) = [''## '' @ strip (para_text para) @ br @ br]"
    by (simp add: heading_md_def)
next
  assume "\<not> is_digit (last (style_name para))"
  with assms(2) have "heading_level (style_name para) = 1"
    by (simp add: heading_level_other)
  with assms show "block_md (CT_P para) = [''# '' @ strip (para_text para) @ br @ br]"
    by (simp add: heading_md_def)
qed

lemmas docx_eval = body_para_def heading_md_def heading_level_def py_int_char_def
  py_lower_def lower_char_def run_md_def br_def is_digit_def digit_char_simps
  final_md_def docx_md_def match_breaks_def table_row_md_def table_separator_md_def
  pipe_row_def marked_lines_def cell_md_def re_sub.simps

theorem heading_classification_witness:
  "strip (para_text \<lparr>style_name = ''Heading 3'', para_text = ''Doc'', para_runs = []\<rparr>) \<noteq> []
   \<and> startswith (style_name \<lparr>style_name = ''Heading 3'', para_text = ''Doc'', para_runs = []\<rparr>) ''Heading''
   \<and> block_md (CT_P \<lparr>style_name = ''Heading 3'', para_text = ''Doc'', para_runs = []\<rparr>)
       = [''### Doc'' @ br @ br]"
proof -
  let ?p = "\<lparr>style_name = ''Heading 3'', para_text = ''Doc'', para_runs = []\<rparr>"
  have a: "strip (para_text ?p) \<noteq> []" and b: "startswith (style_name ?p) ''Heading''"
    by (simp_all add: str_eval)
  have d: "1 \<le> (3::nat) \<and> (3::nat) \<le> 9 \<and> last (style_name ?p) = digit_char 3"
    by (simp add: digit_char_simps)
  from heading_classification [OF a b] d
  have "block_md (CT_P ?p) = [replicate 3 CHR ''#'' @ '' '' @ strip (para_text ?p) @ br @ br]"
    by blast
  also have "\<dots> = [''### Doc'' @ br @ br]"
    by (simp add: str_eval numeral_3_eq_3)
  finally show ?thesis using a b by simp
qed

text \<open>
  The claim as it was written also sends the styles \<open>Title\<close> and \<open>Subtitle\<close> to the
  levels 1 and 2, and a trailing digit to its own level. Neither name starts with
  \<open>Heading\<close>, so the branch that looks for them is never reached with them and the
  paragraph is written as body text; and the digit 0 gives a heading of level 2.
\<close>

theorem title_is_body_text:
  "block_md (body_para ''Title'' ''Doc'') = [''Doc'' @ br @ br]
   \<and> block_md (body_para ''Subtitle'' ''Doc'') = [''Doc'' @ br @ br]
   \<and> block_md (body_para ''Heading 0'' ''Doc'') = [''## Doc'' @ br @ br]"
  by (simp add: docx_eval str_eval)

subsection \<open>Tables\<close>








declare re_sub.simps(2) [simp del]














subsection \<open>Line breaks\<close>

text \<open>
  Claim C10 at a document of three paragraphs, the second one empty: the three markers in
  a row are replaced by two newline characters, not by two markers, and the Markdown
  returned holds newline characters that come from no text of the document.
\<close>

theorem docx_blank_paragraph_newlines:
  "docx_md [body_para ''Normal'' ''a'', body_para ''Normal'' [], body_para ''Normal'' ''b'']
     = ''a'' @ [newline, newline] @ ''b'' @ br @ br"
  by (simp add: docx_eval str_eval)

section \<open>The converters\<close>

subsection \<open>PDF to Markdown\<close>

text \<open>
  The two loops on a PDF whose pages and images all read: what they append, with the
  counters of the source, and the same with the numbers of the specification, which
  start at 1.
\<close>

lemma enumerate_shift:
  "map (\<lambda>(k, x). f (Suc k) x) (enumerate n xs) = map (\<lambda>(k, x). f k x) (enumerate (Suc n) xs)"
  by (induction xs arbitrary: n) simp_all

lemma images_loop_readable:
  "images_loop image_path page_num i (map Inr imgs) md files
   = (None,
      md @ map (\<lambda>(k, img). image_reference page_num k) (enumerate i imgs),
      files @ map (\<lambda>(k, img). (image_path (img_filename page_num k), img)) (enumerate i imgs))"
  by (induction imgs arbitrary: i md files) simp_all

lemma pages_loop_readable:
  "pages_loop image_path p (map readable_page ps) md files
   = (None,
      md @ concat (map (\<lambda>(k, tp). [page_header k, fst tp, [newline, newline]]
                          @ map (\<lambda>(j, img). image_reference k j) (enumerate 0 (snd tp)))
                       (enumerate p ps)),
      files @ concat (map (\<lambda>(k, tp). map (\<lambda>(j, img). (image_path (img_filename k j), img))
                                        (enumerate 0 (snd tp)))
                          (enumerate p ps)))"
  by (induction ps arbitrary: p md files) (simp_all add: readable_page_def images_loop_readable)

lemma image_reference_spec: "image_reference k j = spec_image_reference (Suc k) (Suc j)"
  by (simp add: image_reference_def spec_image_reference_def img_filename_def spec_image_name_def)

lemma img_filename_spec: "img_filename k j = spec_image_name (Suc k) (Suc j)"
  by (simp add: img_filename_def spec_image_name_def)

lemma page_md_spec:
  "concat ([page_header k, text, [newline, newline]]
             @ map (\<lambda>(j, img). image_reference k j) (enumerate 0 imgs))
   = spec_page_md (Suc k) text imgs"
proof -
  have "map (\<lambda>(j, img). image_reference k j) (enumerate 0 imgs)
        = map (\<lambda>(j, img). spec_image_reference (Suc k) j) (enumerate (Suc 0) imgs)"
    using enumerate_shift [of "\<lambda>j img. spec_image_reference (Suc k) j" 0 imgs]
    by (simp add: image_reference_spec)
  then show ?thesis by (simp add: spec_page_md_def page_header_def)
qed

lemma page_files_spec:
  "map (\<lambda>(j, img). (image_path (img_filename k j), img)) (enumerate 0 imgs)
   = map (\<lambda>(i, img). (image_path (spec_image_name (Suc k) i), img)) (enumerate 1 imgs)"
  using enumerate_shift [of "\<lambda>j img. (image_path (spec_image_name (Suc k) j), img)" 0 imgs]
  by (simp add: img_filename_spec)

lemma pages_md_spec:
  "concat (concat (map (\<lambda>(k, tp). [page_header k, fst tp, [newline, newline]]
                          @ map (\<lambda>(j, img). image_reference k j) (enumerate 0 (snd tp)))
                       (enumerate n ps)))
   = concat (map (\<lambda>(p, text, imgs). spec_page_md p text imgs) (enumerate (Suc n) ps))"
proof (induction ps arbitrary: n)
  case Nil
  show ?case by simp
next
  case (Cons tp ps)
  obtain t imgs where tp: "tp = (t, imgs)" by (cases tp)
  from Cons [of "Suc n"] page_md_spec [of n t imgs] show ?case
    by (simp add: tp)
qed

lemma pages_files_spec:
  "concat (map (\<lambda>(k, tp). map (\<lambda>(j, img). (image_path (img_filename k j), img))
                                        (enumerate 0 (snd tp)))
                          (enumerate n ps))
   = concat (map (\<lambda>(p, text, imgs).
                    map (\<lambda>(i, img). (image_path (spec_image_name p i), img)) (enumerate 1 imgs))
                 (enumerate (Suc n) ps))"
proof (induction ps arbitrary: n)
  case Nil
  show ?case by simp
next
  case (Cons tp ps)
  obtain t imgs where tp: "tp = (t, imgs)" by (cases tp)
  from Cons [of "Suc n"] page_files_spec [of image_path n imgs] show ?case
    by (simp add: tp)
qed

text \<open>
  Claim C9. For a readable PDF the Markdown returned is, page by page in reading order,
  the page-number heading, the text of the page, the blank separator and one reference
  per image of the page; and the side files saved are the images in the same order, each
  named \<open>image_p{page}_{index}.png\<close> with page and index counted from 1.
\<close>

theorem pdf_pages_in_reading_order:
  "convert_pdf_to_md image_path (Inr (map readable_page pages))
   = (Inr (spec_pdf_md pages), spec_pdf_files image_path pages)"
  using pages_md_spec [of 0 pages] pages_files_spec [of image_path 0 pages]
  by (simp add: convert_pdf_to_md_def pages_loop_readable spec_pdf_md_def spec_pdf_files_def)

lemma str_of_nat_simps:
  "str_of_nat (Suc 0) = ''1''" "str_of_nat (Suc (Suc 0)) = ''2''" "str_of_nat 2 = ''2''"
  by code_simp+

theorem pdf_pages_in_reading_order_witness:
  "convert_pdf_to_md (\<lambda>f. ''/in/'' @ f)
     (Inr [\<lparr>get_text = Inr ''one'', get_images = [Inr True, Inr False]\<rparr>,
           \<lparr>get_text = Inr ''two'', get_images = []\<rparr>])
   = (Inr (''## Page 1'' @ [newline] @ ''one'' @ [newline, newline]
           @ ''![Image 1 from page 1](image_p1_1.png)'' @ [newline, newline]
           @ ''![Image 2 from page 1](image_p1_2.png)'' @ [newline, newline]
           @ ''## Page 2'' @ [newline] @ ''two'' @ [newline, newline]),
      [(''/in/image_p1_1.png'', True), (''/in/image_p1_2.png'', False)])"
  using pdf_pages_in_reading_order [of "\<lambda>f. ''/in/'' @ f" "[(''one'', [True, False]), (''two'', [])]"]
  by (simp add: readable_page_def spec_pdf_md_def spec_pdf_files_def spec_page_md_def
      spec_image_reference_def spec_image_name_def str_of_nat_simps)

subsection \<open>No exception leaves a converter\<close>


subsection \<open>DOCX to PDF\<close>




subsection \<open>Markdown to PDF\<close>





end
